theory Spec2Isabelle
  imports Complex_Main "HOL-Library.Log_Nat"
begin

text \<open>
  The client of the career roadmap application: the roadmap detail screen with its
  progress update, the session bootstrap of the landing page and the dashboard, and
  the login and registration forms. Each handler is a function of the state it reads
  and of the results of the calls it awaits (store reads, fetches); it returns the
  state it leaves behind together with the alerts shown, the requests sent and the
  navigation made.
\<close>

section \<open>Values of the runtime\<close>

text \<open>
  A JavaScript \<open>number\<close> is an IEEE 754 double. A finite double is kept as the
  rational it denotes; the infinities and \<open>NaN\<close> are constructors of their own. The
  operands of the one division of the program are array lengths, so negative zero
  never occurs and is not modelled.
\<close>

datatype number = Num rat | PosInfinity | NegInfinity | NaN

text \<open>
  Rounding of an exact result to a double, to nearest with ties to even.
  \<open>exponent x\<close> is the binary exponent of a positive \<open>x\<close>
  (\<open>2 ^ e \<le> x < 2 ^ (e + 1)\<close>), held at \<open>-1022\<close> from below, where the subnormal
  numbers begin; a double with that exponent is a multiple of \<open>2 ^ (e - 52)\<close>. A
  magnitude that rounds to \<open>2 ^ 1024\<close> or more overflows to an infinity.
\<close>

definition round_half_even :: "rat \<Rightarrow> int" where
  "round_half_even y =
     (let f = \<lfloor>y\<rfloor>; d = y - of_int f
      in if d < 1 / 2 then f else if 1 / 2 < d then f + 1 else if even f then f else f + 1)"

definition exponent :: "rat \<Rightarrow> int" where
  "exponent x =
     (case quotient_of x of
        (p, q) \<Rightarrow>
          (let d = bitlen p - bitlen q;
               e = (if 2 powi d \<le> x then d else d - 1)
           in max e (- 1022)))"

definition round_magnitude :: "rat \<Rightarrow> rat" where
  "round_magnitude x =
     (let quantum = 2 powi (exponent x - 52)
      in of_int (round_half_even (x / quantum)) * quantum)"

definition to_double :: "rat \<Rightarrow> number" where
  "to_double x =
     (let m = round_magnitude \<bar>x\<bar>
      in if 2 ^ 1024 \<le> m then (if 0 < x then PosInfinity else NegInfinity)
         else Num (if 0 \<le> x then m else - m))"

text \<open>The operators \<open>/\<close> and \<open>*\<close>: the exact result, rounded.\<close>

fun js_div :: "number \<Rightarrow> number \<Rightarrow> number" where
  "js_div (Num a) (Num b) =
     (if b = 0 then (if a = 0 then NaN else if 0 < a then PosInfinity else NegInfinity)
      else to_double (a / b))"
| "js_div (Num a) PosInfinity = Num 0"
| "js_div (Num a) NegInfinity = Num 0"
| "js_div PosInfinity (Num b) = (if 0 \<le> b then PosInfinity else NegInfinity)"
| "js_div NegInfinity (Num b) = (if 0 \<le> b then NegInfinity else PosInfinity)"
| "js_div _ _ = NaN"

fun js_mul :: "number \<Rightarrow> number \<Rightarrow> number" where
  "js_mul (Num a) (Num b) = to_double (a * b)"
| "js_mul (Num a) PosInfinity =
     (if a = 0 then NaN else if 0 < a then PosInfinity else NegInfinity)"
| "js_mul (Num a) NegInfinity =
     (if a = 0 then NaN else if 0 < a then NegInfinity else PosInfinity)"
| "js_mul PosInfinity (Num b) =
     (if b = 0 then NaN else if 0 < b then PosInfinity else NegInfinity)"
| "js_mul NegInfinity (Num b) =
     (if b = 0 then NaN else if 0 < b then NegInfinity else PosInfinity)"
| "js_mul PosInfinity PosInfinity = PosInfinity"
| "js_mul NegInfinity NegInfinity = PosInfinity"
| "js_mul PosInfinity NegInfinity = NegInfinity"
| "js_mul NegInfinity PosInfinity = NegInfinity"
| "js_mul _ _ = NaN"

text \<open>
  The length of an array, as a \<open>number\<close>: an integer below \<open>2 ^ 32\<close>, which is a double.
\<close>

definition js_length :: "'a list \<Rightarrow> number" where
  "js_length xs = Num (of_nat (length xs))"

text \<open>
  The result of an awaited promise, or of a call that may throw: the value, or the
  jump to the enclosing \<open>catch\<close>.
\<close>

datatype 'a outcome = Returns 'a | Throws

text \<open>
  Truthiness of a value of type \<open>string | null\<close>: \<open>null\<close> and the empty string are
  falsy.
\<close>

fun truthy :: "string option \<Rightarrow> bool" where
  "truthy None = False"
| "truthy (Some s) = (s \<noteq> [])"

text \<open>An \<open>Alert.alert(title, message)\<close> call.\<close>

type_synonym alert = "string \<times> string"

section \<open>Roadmap detail screen\<close>

record RoadmapStep =
  step_id :: string
  step_title :: string
  step_description :: string
  resources :: "string list"
  duration :: string

record CareerRoadmap =
  roadmap_id :: string
  title :: string
  stream :: string
  description :: string
  steps :: "RoadmapStep list"
  estimated_duration :: string
  difficulty_level :: string

record UserProgress =
  user_id :: string
  career_id :: string
  completed_steps :: "string list"
  progress_percentage :: number

text \<open>The body of the \<open>POST /api/progress\<close> request.\<close>

record progress_post =
  post_career_id :: string
  post_step_id :: string
  post_completed :: bool

text \<open>
  \<open>roadmap?.steps.length || 0\<close>: the number of steps, and \<open>0\<close> when no roadmap is
  loaded.
\<close>

definition totalSteps :: "CareerRoadmap option \<Rightarrow> number" where
  "totalSteps roadmap = (case roadmap of None \<Rightarrow> Num 0 | Some r \<Rightarrow> js_length (steps r))"

text \<open>
  The local update of \<open>toggleStepCompletion\<close>: the object handed to
  \<open>setUserProgress\<close> when the response is ok and a progress record is loaded.
\<close>

definition updatedSteps :: "UserProgress \<Rightarrow> string \<Rightarrow> bool \<Rightarrow> string list" where
  "updatedSteps userProgress stepId completed =
     (if completed then completed_steps userProgress @ [stepId]
      else filter (\<lambda>s. s \<noteq> stepId) (completed_steps userProgress))"

definition newProgress :: "CareerRoadmap option \<Rightarrow> string list \<Rightarrow> number" where
  "newProgress roadmap updated =
     js_mul (js_div (js_length updated) (totalSteps roadmap)) (Num 100)"

definition local_update ::
  "CareerRoadmap option \<Rightarrow> UserProgress \<Rightarrow> string \<Rightarrow> bool \<Rightarrow> UserProgress" where
  "local_update roadmap userProgress stepId completed =
     userProgress\<lparr>completed_steps := updatedSteps userProgress stepId completed,
                  progress_percentage :=
                    newProgress roadmap (updatedSteps userProgress stepId completed)\<rparr>"

text \<open>
  What one run of \<open>toggleStepCompletion\<close> leaves behind: the progress state, the
  \<open>updatingStep\<close> marker (always cleared by the \<open>finally\<close> block), the alerts shown
  and the requests sent.
\<close>

record toggle_outcome =
  t_userProgress :: "UserProgress option"
  t_updatingStep :: "string option"
  t_alerts :: "alert list"
  t_requests :: "progress_post list"

text \<open>
  \<open>toggleStepCompletion(stepId, completed)\<close>, run from start to end against the
  state it was created with. \<open>route_id\<close> is the route parameter \<open>id\<close>, \<open>token_read\<close> the result
  of reading \<open>auth_token\<close> from the store, \<open>response\<close> the result of the fetch
  (\<open>Returns ok\<close> carries \<open>response.ok\<close>; \<open>Throws\<close> is a rejected fetch).
\<close>

definition toggleStepCompletion ::
  "string \<Rightarrow> CareerRoadmap option \<Rightarrow> UserProgress option \<Rightarrow> string option outcome \<Rightarrow>
   bool outcome \<Rightarrow> string \<Rightarrow> bool \<Rightarrow> toggle_outcome" where
  "toggleStepCompletion route_id roadmap userProgress token_read response stepId completed =
     (let post = \<lparr>post_career_id = route_id, post_step_id = stepId, post_completed = completed\<rparr>
      in case token_read of
           Throws \<Rightarrow>
             \<lparr>t_userProgress = userProgress, t_updatingStep = None,
              t_alerts = [(''Error'', ''Network error occurred'')], t_requests = []\<rparr>
         | Returns token \<Rightarrow>
             if \<not> truthy token then
               \<lparr>t_userProgress = userProgress, t_updatingStep = None,
                t_alerts = [(''Error'', ''Authentication required'')], t_requests = []\<rparr>
             else
               (case response of
                  Throws \<Rightarrow>
                    \<lparr>t_userProgress = userProgress, t_updatingStep = None,
                     t_alerts = [(''Error'', ''Network error occurred'')],
                     t_requests = [post]\<rparr>
                | Returns ok \<Rightarrow>
                    if ok then
                      \<lparr>t_userProgress =
                         (case userProgress of
                            None \<Rightarrow> None
                          | Some p \<Rightarrow> Some (local_update roadmap p stepId completed)),
                       t_updatingStep = None, t_alerts = [], t_requests = [post]\<rparr>
                    else
                      \<lparr>t_userProgress = userProgress, t_updatingStep = None,
                       t_alerts = [(''Error'', ''Failed to update progress'')],
                       t_requests = [post]\<rparr>))"

text \<open>\<open>userProgress?.completed_steps.includes(stepId) || false\<close>.\<close>

definition isStepCompleted :: "UserProgress option \<Rightarrow> string \<Rightarrow> bool" where
  "isStepCompleted userProgress stepId =
     (case userProgress of None \<Rightarrow> False | Some p \<Rightarrow> stepId \<in> set (completed_steps p))"

text \<open>The step ids of a roadmap, in order.\<close>

definition step_ids :: "CareerRoadmap \<Rightarrow> string list" where
  "step_ids r = map step_id (steps r)"

subsection \<open>The screen as an event-driven state machine\<close>

text \<open>
  The screen runs on a single-threaded event loop: a handler runs up to its next
  \<open>await\<close>, and the component is rendered again between two events. A toggle whose
  request has been sent and not answered yet is kept with the progress state its
  closure captured at the render it was created in. The read of the token is taken to
  complete before the next event; the roadmap does not change once loaded.
\<close>

record pending_toggle =
  pt_stepId :: string
  pt_completed :: bool
  pt_userProgress :: "UserProgress option"

record detail_screen =
  s_roadmap :: "CareerRoadmap option"
  s_userProgress :: "UserProgress option"
  s_updatingStep :: "string option"
  s_token :: "string option outcome"
  s_inflight :: "pending_toggle list"
  s_alerts :: "alert list"

datatype event = Press string | Response nat "bool outcome"

text \<open>\<open>const isUpdating = updatingStep === step.id\<close>, the \<open>disabled\<close> flag of a step's checkbox.\<close>

definition isUpdating :: "detail_screen \<Rightarrow> string \<Rightarrow> bool" where
  "isUpdating s stepId = (s_updatingStep s = Some stepId)"

text \<open>
  The first part of \<open>toggleStepCompletion\<close>, up to the moment the request is sent:
  \<open>setUpdatingStep(stepId)\<close>, the token check, the fetch.
\<close>

definition start_toggle :: "detail_screen \<Rightarrow> string \<Rightarrow> bool \<Rightarrow> detail_screen" where
  "start_toggle s stepId completed =
     (case s_token s of
        Throws \<Rightarrow>
          s\<lparr>s_updatingStep := None,
            s_alerts := s_alerts s @ [(''Error'', ''Network error occurred'')]\<rparr>
      | Returns token \<Rightarrow>
          if \<not> truthy token then
            s\<lparr>s_updatingStep := None,
              s_alerts := s_alerts s @ [(''Error'', ''Authentication required'')]\<rparr>
          else
            s\<lparr>s_updatingStep := Some stepId,
              s_inflight := s_inflight s @
                [\<lparr>pt_stepId = stepId, pt_completed = completed,
                  pt_userProgress = s_userProgress s\<rparr>]\<rparr>)"

text \<open>
  A tap on the checkbox of a step: there is a checkbox only for a step of the loaded
  roadmap, it is disabled while \<open>isUpdating\<close>, and its handler is
  \<open>toggleStepCompletion(step.id, !completed)\<close>.
\<close>

definition press :: "detail_screen \<Rightarrow> string \<Rightarrow> detail_screen" where
  "press s stepId =
     (case s_roadmap s of
        None \<Rightarrow> s
      | Some r \<Rightarrow>
          if stepId \<notin> set (step_ids r) then s
          else if isUpdating s stepId then s
          else start_toggle s stepId (\<not> isStepCompleted (s_userProgress s) stepId))"

text \<open>
  The rest of \<open>toggleStepCompletion\<close> for the \<open>i\<close>-th request in flight, once its
  response is there: the local update from the captured progress state, or the alert,
  and \<open>setUpdatingStep(null)\<close> in the \<open>finally\<close> block.
\<close>

definition respond :: "detail_screen \<Rightarrow> nat \<Rightarrow> bool outcome \<Rightarrow> detail_screen" where
  "respond s i response =
     (if length (s_inflight s) \<le> i then s
      else
        (let pt = s_inflight s ! i;
             rest = take i (s_inflight s) @ drop (Suc i) (s_inflight s)
         in case response of
              Throws \<Rightarrow>
                s\<lparr>s_updatingStep := None, s_inflight := rest,
                  s_alerts := s_alerts s @ [(''Error'', ''Network error occurred'')]\<rparr>
            | Returns ok \<Rightarrow>
                if ok then
                  s\<lparr>s_userProgress :=
                      (case pt_userProgress pt of
                         None \<Rightarrow> s_userProgress s
                       | Some p \<Rightarrow>
                           Some (local_update (s_roadmap s) p (pt_stepId pt) (pt_completed pt))),
                    s_updatingStep := None, s_inflight := rest\<rparr>
                else
                  s\<lparr>s_updatingStep := None, s_inflight := rest,
                    s_alerts := s_alerts s @ [(''Error'', ''Failed to update progress'')]\<rparr>))"

fun handle :: "detail_screen \<Rightarrow> event \<Rightarrow> detail_screen" where
  "handle s (Press stepId) = press s stepId"
| "handle s (Response i response) = respond s i response"

fun run :: "detail_screen \<Rightarrow> event list \<Rightarrow> detail_screen" where
  "run s [] = s"
| "run s (e # es) = run (handle s e) es"

text \<open>The step ids of the requests in flight.\<close>

definition inflight_steps :: "detail_screen \<Rightarrow> string list" where
  "inflight_steps s = map pt_stepId (s_inflight s)"

subsection \<open>The shape of the state that the screen keeps\<close>

text \<open>
  A progress record fits a roadmap when it holds each completed step once and only
  steps of the roadmap. A toggle in flight is as the checkbox issues it when it is for
  a step of the roadmap and asks for the opposite of what the progress state of its
  render says.
\<close>

definition well_formed :: "CareerRoadmap \<Rightarrow> UserProgress \<Rightarrow> bool" where
  "well_formed r p \<longleftrightarrow>
     distinct (completed_steps p) \<and> set (completed_steps p) \<subseteq> set (step_ids r)"

definition as_issued :: "CareerRoadmap \<Rightarrow> pending_toggle \<Rightarrow> bool" where
  "as_issued r pt \<longleftrightarrow>
     pt_stepId pt \<in> set (step_ids r)
     \<and> (case pt_userProgress pt of
          None \<Rightarrow> True
        | Some p \<Rightarrow>
            well_formed r p \<and> pt_completed pt = (pt_stepId pt \<notin> set (completed_steps p)))"

definition screen_ok :: "detail_screen \<Rightarrow> bool" where
  "screen_ok s \<longleftrightarrow>
     (case s_roadmap s of
        None \<Rightarrow> True
      | Some r \<Rightarrow>
          (case s_userProgress s of None \<Rightarrow> True | Some p \<Rightarrow> well_formed r p)
          \<and> list_all (as_issued r) (s_inflight s))"

text \<open>Every toggle in flight is for a step of the loaded roadmap.\<close>

definition inflight_known :: "detail_screen \<Rightarrow> bool" where
  "inflight_known s \<longleftrightarrow>
     list_all
       (\<lambda>pt. case s_roadmap s of
               None \<Rightarrow> False
             | Some r \<Rightarrow> pt_stepId pt \<in> set (step_ids r))
       (s_inflight s)"

section \<open>Credential store, routes and the library\<close>

text \<open>
  \<open>AsyncStorage\<close>: what a read of each key gives, a value, \<open>null\<close>, or a rejected
  promise. A write is taken to succeed and to make the key readable.
\<close>

type_synonym AsyncStorage = "string \<Rightarrow> string option outcome"

definition getItem :: "AsyncStorage \<Rightarrow> string \<Rightarrow> string option outcome" where
  "getItem st k = st k"

definition setItem :: "AsyncStorage \<Rightarrow> string \<Rightarrow> string \<Rightarrow> AsyncStorage" where
  "setItem st k v = st(k := Returns (Some v))"

datatype route = Index | AuthLogin | AuthRegister | StreamSelection | Dashboard

record User =
  u_id :: string
  u_name :: string
  u_email :: string
  selected_stream :: "string option"

text \<open>
  The library functions the screens call, taken as parameters: \<open>String.toLowerCase\<close>,
  \<open>String.trim\<close>, \<open>JSON.stringify\<close> of a user object, and \<open>JSON.parse\<close> of the cached
  user followed by the read of its fields (\<open>Throws\<close> when the text does not parse, or
  parses to \<open>null\<close>, whose field read throws into the same \<open>catch\<close>).
\<close>

record runtime =
  toLowerCase :: "string \<Rightarrow> string"
  trim :: "string \<Rightarrow> string"
  JSON_stringify :: "User \<Rightarrow> string"
  JSON_parse :: "string \<Rightarrow> User outcome"

section \<open>Session bootstrap\<close>

text \<open>
  \<open>checkAuthStatus\<close> of the landing page (and, with the same code, of the login
  screen): the route it replaces the current one with, if any, and the alerts it shows.
  The \<open>catch\<close> only logs to the console.
\<close>

definition checkAuthStatus :: "AsyncStorage \<Rightarrow> route option \<times> alert list" where
  "checkAuthStatus st =
     (case getItem st ''auth_token'' of
        Throws \<Rightarrow> (None, [])
      | Returns token \<Rightarrow> if truthy token then (Some Dashboard, []) else (None, []))"

text \<open>
  \<open>initializeData\<close> of the dashboard. \<open>fetchRoadmaps\<close> and \<open>fetchUserProgress\<close> catch
  their own errors, show no alert and never navigate, so the last branch stays on the
  dashboard.
\<close>

definition initializeData :: "runtime \<Rightarrow> AsyncStorage \<Rightarrow> route option \<times> alert list" where
  "initializeData rt st =
     (case getItem st ''user_data'' of
        Throws \<Rightarrow> (None, [(''Error'', ''Failed to load data'')])
      | Returns userData \<Rightarrow>
          (case getItem st ''auth_token'' of
             Throws \<Rightarrow> (None, [(''Error'', ''Failed to load data'')])
           | Returns token \<Rightarrow>
               (case userData of
                  None \<Rightarrow> (Some AuthLogin, [])
                | Some stored \<Rightarrow>
                    if stored = [] \<or> \<not> truthy token then (Some AuthLogin, [])
                    else
                      (case JSON_parse rt stored of
                         Throws \<Rightarrow> (None, [(''Error'', ''Failed to load data'')])
                       | Returns parsedUser \<Rightarrow>
                           if \<not> truthy (selected_stream parsedUser)
                           then (Some StreamSelection, [])
                           else (None, [])))))"

text \<open>What a screen does when it is mounted.\<close>

fun on_mount :: "runtime \<Rightarrow> AsyncStorage \<Rightarrow> route \<Rightarrow> route option \<times> alert list" where
  "on_mount rt st Index = checkAuthStatus st"
| "on_mount rt st AuthLogin = checkAuthStatus st"
| "on_mount rt st Dashboard = initializeData rt st"
| "on_mount rt st StreamSelection = (None, [])"
| "on_mount rt st AuthRegister = (None, [])"

text \<open>
  Following the redirects from a screen until one stays, at most \<open>n\<close> screens long:
  the screen the user ends on and the alerts shown on the way, or \<open>None\<close> when the
  redirects have not come to rest within \<open>n\<close> screens.
\<close>

fun settle :: "nat \<Rightarrow> runtime \<Rightarrow> AsyncStorage \<Rightarrow> route \<Rightarrow> (route \<times> alert list) option" where
  "settle 0 rt st r = None"
| "settle (Suc n) rt st r =
     (case on_mount rt st r of
        (None, shown) \<Rightarrow> Some (r, shown)
      | (Some r', shown) \<Rightarrow>
          (case settle n rt st r' of
             None \<Rightarrow> None
           | Some (final, later) \<Rightarrow> Some (final, shown @ later)))"

text \<open>The app starts on the landing page.\<close>

definition bootstrap :: "nat \<Rightarrow> runtime \<Rightarrow> AsyncStorage \<Rightarrow> (route \<times> alert list) option" where
  "bootstrap n rt st = settle n rt st Index"

section \<open>Login and registration\<close>

text \<open>
  The body of a response of \<open>/api/auth/login\<close> or \<open>/api/auth/register\<close>, and the
  response: \<open>response.ok\<close> and the result of \<open>response.json()\<close>.
\<close>

record auth_body =
  body_detail :: "string option"
  body_access_token :: string
  body_user :: User

record http_response =
  resp_ok :: bool
  resp_json :: "auth_body outcome"

text \<open>\<open>data.detail || fallback\<close>.\<close>

definition detail_or :: "auth_body \<Rightarrow> string \<Rightarrow> string" where
  "detail_or data fallback =
     (case body_detail data of
        None \<Rightarrow> fallback
      | Some d \<Rightarrow> if d = [] then fallback else d)"

record login_outcome =
  l_storage :: AsyncStorage
  l_navigate :: "route option"
  l_alerts :: "alert list"
  l_requests :: "(string \<times> string) list"

text \<open>
  \<open>handleLogin\<close>. \<open>reply\<close> is the result of the fetch (\<open>Throws\<close>: the fetch rejects);
  a request is the pair of the email and the password sent.
\<close>

definition handleLogin ::
  "runtime \<Rightarrow> AsyncStorage \<Rightarrow> string \<Rightarrow> string \<Rightarrow> http_response outcome \<Rightarrow> login_outcome" where
  "handleLogin rt st email password reply =
     (if email = [] \<or> password = [] then
        \<lparr>l_storage = st, l_navigate = None,
         l_alerts = [(''Error'', ''Please fill in all fields'')], l_requests = []\<rparr>
      else if CHR ''@'' \<notin> set email then
        \<lparr>l_storage = st, l_navigate = None,
         l_alerts = [(''Error'', ''Please enter a valid email address'')], l_requests = []\<rparr>
      else
        (let request = (toLowerCase rt email, password);
             network_error =
               \<lparr>l_storage = st, l_navigate = None,
                l_alerts = [(''Error'', ''Network error. Please try again.'')],
                l_requests = [request]\<rparr>
         in case reply of
              Throws \<Rightarrow> network_error
            | Returns response \<Rightarrow>
                (case resp_json response of
                   Throws \<Rightarrow> network_error
                 | Returns data \<Rightarrow>
                     if resp_ok response then
                       \<lparr>l_storage =
                          setItem (setItem st ''auth_token'' (body_access_token data))
                            ''user_data'' (JSON_stringify rt (body_user data)),
                        l_navigate =
                          Some (if truthy (selected_stream (body_user data))
                                then Dashboard else StreamSelection),
                        l_alerts = [], l_requests = [request]\<rparr>
                     else
                       \<lparr>l_storage = st, l_navigate = None,
                        l_alerts = [(''Login Failed'', detail_or data ''Invalid credentials'')],
                        l_requests = [request]\<rparr>)))"

text \<open>\<open>validateForm\<close> of the registration screen: its result and the alert it shows.\<close>

definition validateForm :: "string \<Rightarrow> string \<Rightarrow> string \<Rightarrow> string \<Rightarrow> bool \<times> alert list" where
  "validateForm name email password confirmPassword =
     (if name = [] \<or> email = [] \<or> password = [] \<or> confirmPassword = [] then
        (False, [(''Error'', ''Please fill in all fields'')])
      else if length name < 2 then
        (False, [(''Error'', ''Name must be at least 2 characters long'')])
      else if CHR ''@'' \<notin> set email then
        (False, [(''Error'', ''Please enter a valid email address'')])
      else if length password < 6 then
        (False, [(''Error'', ''Password must be at least 6 characters long'')])
      else if password \<noteq> confirmPassword then
        (False, [(''Error'', ''Passwords do not match'')])
      else (True, []))"

text \<open>
  What \<open>handleRegister\<close> leaves behind. A request is the name, the email and the
  password sent; \<open>r_navigate\<close> is the route the OK button of the success alert leads to.
\<close>

record register_outcome =
  r_storage :: AsyncStorage
  r_navigate :: "route option"
  r_alerts :: "alert list"
  r_requests :: "(string \<times> string \<times> string) list"

definition handleRegister ::
  "runtime \<Rightarrow> AsyncStorage \<Rightarrow> string \<Rightarrow> string \<Rightarrow> string \<Rightarrow> string \<Rightarrow>
   http_response outcome \<Rightarrow> register_outcome" where
  "handleRegister rt st name email password confirmPassword reply =
     (case validateForm name email password confirmPassword of
        (False, shown) \<Rightarrow>
          \<lparr>r_storage = st, r_navigate = None, r_alerts = shown, r_requests = []\<rparr>
      | (True, shown) \<Rightarrow>
          (let request = (trim rt name, trim rt (toLowerCase rt email), password);
               network_error =
                 \<lparr>r_storage = st, r_navigate = None,
                  r_alerts = shown @ [(''Error'', ''Network error. Please try again.'')],
                  r_requests = [request]\<rparr>
           in case reply of
                Throws \<Rightarrow> network_error
              | Returns response \<Rightarrow>
                  (case resp_json response of
                     Throws \<Rightarrow> network_error
                   | Returns data \<Rightarrow>
                       if resp_ok response then
                         \<lparr>r_storage =
                            setItem (setItem st ''auth_token'' (body_access_token data))
                              ''user_data'' (JSON_stringify rt (body_user data)),
                          r_navigate = Some StreamSelection,
                          r_alerts = shown @ [(''Success'', ''Account created successfully!'')],
                          r_requests = [request]\<rparr>
                       else
                         \<lparr>r_storage = st, r_navigate = None,
                          r_alerts =
                            shown @ [(''Registration Failed'',
                                      detail_or data ''Something went wrong'')],
                          r_requests = [request]\<rparr>)))"

subsection \<open>Example data\<close>

definition mk_step :: "string \<Rightarrow> RoadmapStep" where
  "mk_step i =
     \<lparr>step_id = i, step_title = ''Step'', step_description = ''What to do'',
      resources = [], duration = ''2 weeks''\<rparr>"

definition mk_roadmap :: "string list \<Rightarrow> CareerRoadmap" where
  "mk_roadmap ids =
     \<lparr>roadmap_id = ''r1'', title = ''Data Scientist'', stream = ''Science'',
      description = ''A career in data'', steps = map mk_step ids,
      estimated_duration = ''2 years'', difficulty_level = ''Intermediate''\<rparr>"

definition mk_progress :: "string list \<Rightarrow> number \<Rightarrow> UserProgress" where
  "mk_progress cs pct =
     \<lparr>user_id = ''u1'', career_id = ''r1'', completed_steps = cs,
      progress_percentage = pct\<rparr>"

definition loaded_screen :: "string list \<Rightarrow> string list \<Rightarrow> number \<Rightarrow> detail_screen" where
  "loaded_screen ids cs pct =
     \<lparr>s_roadmap = Some (mk_roadmap ids), s_userProgress = Some (mk_progress cs pct),
      s_updatingStep = None, s_token = Returns (Some ''tok''), s_inflight = [],
      s_alerts = []\<rparr>"

definition mk_user :: "string option \<Rightarrow> User" where
  "mk_user chosen =
     \<lparr>u_id = ''u1'', u_name = ''Asha'', u_email = ''asha@example.com'',
      selected_stream = chosen\<rparr>"

text \<open>
  A stand-in for the library: the two stored texts \<open>''asha+Science''\<close> and \<open>''asha''\<close>
  parse to a user with and without a stream, every other text fails to parse.
\<close>

definition example_runtime :: runtime where
  "example_runtime =
     \<lparr>toLowerCase = (\<lambda>s. s), trim = (\<lambda>s. s),
      JSON_stringify =
        (\<lambda>u. if truthy (selected_stream u) then ''asha+Science'' else ''asha''),
      JSON_parse =
        (\<lambda>s. if s = ''asha+Science'' then Returns (mk_user (Some ''Science''))
             else if s = ''asha'' then Returns (mk_user None)
             else Throws)\<rparr>"

definition store_of :: "string option outcome \<Rightarrow> string option outcome \<Rightarrow> AsyncStorage" where
  "store_of token user_data =
     (\<lambda>k. if k = ''auth_token'' then token
          else if k = ''user_data'' then user_data
          else Returns None)"

definition rejection :: "string option \<Rightarrow> http_response" where
  "rejection message =
     \<lparr>resp_ok = False,
      resp_json = Returns \<lparr>body_detail = message, body_access_token = [],
                           body_user = mk_user None\<rparr>\<rparr>"

section \<open>Properties of the arithmetic\<close>

lemma to_double_0: "to_double 0 = Num 0"
  by code_simp

lemma to_double_1: "to_double 1 = Num 1"
  by code_simp

lemma to_double_100: "to_double 100 = Num 100"
  by code_simp

text \<open>
  Two values as the runtime computes them: 7 of 25 steps give
  \<open>28.000000000000004\<close>, and 1 of 6 steps gives \<open>16.666666666666664\<close>.
\<close>

lemma percentage_7_of_25:
  "js_mul (js_div (Num 7) (Num 25)) (Num 100) = Num (28 + 1 / 2 ^ 48)"
  by code_simp

lemma percentage_1_of_6:
  "js_mul (js_div (Num 1) (Num 6)) (Num 100) = Num (2345624805922133 / 2 ^ 47)"
  by code_simp

lemma round_half_even_le:
  assumes "y \<le> of_int N"
  shows "round_half_even y \<le> N"
proof -
  have f: "\<lfloor>y\<rfloor> \<le> N" using assms by (simp add: floor_le_iff)
  show ?thesis
  proof (cases "\<lfloor>y\<rfloor> = N")
    case True
    then have "of_int N \<le> y" using of_int_floor_le [of y] by simp
    then have "y = of_int N" using assms by simp
    then show ?thesis by (simp add: round_half_even_def)
  next
    case False
    then have "\<lfloor>y\<rfloor> + 1 \<le> N" using f by simp
    then show ?thesis using f by (auto simp: round_half_even_def Let_def)
  qed
qed

lemma round_half_even_nonneg:
  assumes "0 \<le> y"
  shows "0 \<le> round_half_even y"
proof -
  have "0 \<le> \<lfloor>y\<rfloor>" using assms by simp
  then show ?thesis by (auto simp: round_half_even_def Let_def)
qed

text \<open>Above the subnormal range the power of two of the exponent is below the number.\<close>

lemma exponent_le:
  assumes "0 < x"
  shows "exponent x = - 1022 \<or> 2 powi exponent x \<le> x"
proof -
  obtain p q where pq: "quotient_of x = (p, q)" by (cases "quotient_of x")
  then have q: "0 < q" by (rule quotient_of_denom_pos)
  have x: "x = of_int p / of_int q" using pq by (rule quotient_of_div)
  have p: "0 < p" using assms q x by (simp add: zero_less_divide_iff)
  define d where "d = bitlen p - bitlen q"
  define e where "e = (if (2::rat) powi d \<le> x then d else d - 1)"
  have ex: "exponent x = max e (- 1022)"
    using pq by (simp add: exponent_def Let_def d_def e_def)
  have low: "(2::rat) powi (d - 1) \<le> x"
  proof -
    have bp: "1 \<le> bitlen p" using p bitlen_eq_zero_iff [of p] bitlen_nonneg [of p] by linarith
    have bq: "1 \<le> bitlen q" using q bitlen_eq_zero_iff [of q] bitlen_nonneg [of q] by linarith
    have "(2::int) ^ nat (bitlen p - 1) \<le> p" using bitlen_bounds [OF p] by simp
    then have "(of_int ((2::int) ^ nat (bitlen p - 1)) :: rat) \<le> of_int p"
      by (simp only: of_int_le_iff)
    then have 1: "(2::rat) powi (bitlen p - 1) \<le> of_int p"
      using bp by (simp add: power_int_def)
    have "q < 2 ^ nat (bitlen q)" using bitlen_bounds [OF q] by simp
    then have "(of_int q :: rat) < of_int ((2::int) ^ nat (bitlen q))"
      by (simp only: of_int_less_iff)
    then have 2: "(of_int q :: rat) < 2 powi (bitlen q)"
      using bq by (simp add: power_int_def)
    have "(2::rat) powi (d - 1) = 2 powi (bitlen p - 1) / 2 powi (bitlen q)"
      by (simp add: d_def power_int_diff)
    also have "\<dots> \<le> of_int p / 2 powi (bitlen q)"
      using 1 by (simp add: divide_right_mono)
    also have "\<dots> \<le> of_int p / of_int q"
      using 2 p q by (intro divide_left_mono) simp_all
    finally show ?thesis using x by simp
  qed
  have "2 powi e \<le> x" using low by (simp add: e_def)
  then show ?thesis using ex by (auto simp: max_def)
qed

text \<open>And the number is below the next power of two.\<close>

lemma exponent_gt:
  assumes "0 < x"
  shows "x < 2 powi (exponent x + 1)"
proof -
  obtain p q where pq: "quotient_of x = (p, q)" by (cases "quotient_of x")
  then have q: "0 < q" by (rule quotient_of_denom_pos)
  have x: "x = of_int p / of_int q" using pq by (rule quotient_of_div)
  have p: "0 < p" using assms q x by (simp add: zero_less_divide_iff)
  define d where "d = bitlen p - bitlen q"
  define e where "e = (if (2::rat) powi d \<le> x then d else d - 1)"
  have ex: "exponent x = max e (- 1022)"
    using pq by (simp add: exponent_def Let_def d_def e_def)
  have high: "x < (2::rat) powi (d + 1)"
  proof -
    have bp: "1 \<le> bitlen p" using p bitlen_eq_zero_iff [of p] bitlen_nonneg [of p] by linarith
    have bq: "1 \<le> bitlen q" using q bitlen_eq_zero_iff [of q] bitlen_nonneg [of q] by linarith
    have "p < 2 ^ nat (bitlen p)" using bitlen_bounds [OF p] by simp
    then have "(of_int p :: rat) < of_int ((2::int) ^ nat (bitlen p))"
      by (simp only: of_int_less_iff)
    then have 1: "(of_int p :: rat) < 2 powi (bitlen p)"
      using bp by (simp add: power_int_def)
    have "(2::int) ^ nat (bitlen q - 1) \<le> q" using bitlen_bounds [OF q] by simp
    then have "(of_int ((2::int) ^ nat (bitlen q - 1)) :: rat) \<le> of_int q"
      by (simp only: of_int_le_iff)
    then have 2: "(2::rat) powi (bitlen q - 1) \<le> of_int q"
      using bq by (simp add: power_int_def)
    have "x = of_int p / of_int q" by (rule x)
    also have "\<dots> < 2 powi (bitlen p) / of_int q"
      using 1 q by (simp add: divide_strict_right_mono)
    also have "\<dots> \<le> 2 powi (bitlen p) / 2 powi (bitlen q - 1)"
      using 2 q by (intro divide_left_mono) (simp_all add: zero_less_mult_iff)
    also have "\<dots> = 2 powi (d + 1)"
    proof -
      have eq: "bitlen p - (bitlen q - 1) = d + 1" by (simp add: d_def)
      have "(2::rat) powi (bitlen p - (bitlen q - 1)) = 2 powi bitlen p / 2 powi (bitlen q - 1)"
        by (rule power_int_diff) simp
      then have "(2::rat) powi (d + 1) = 2 powi bitlen p / 2 powi (bitlen q - 1)"
        by (simp only: eq)
      then show ?thesis by (rule sym)
    qed
    finally show ?thesis .
  qed
  have "x < 2 powi (e + 1)" using high by (auto simp: e_def)
  also have "(2::rat) powi (e + 1) \<le> 2 powi (exponent x + 1)"
    using ex by (intro power_int_increasing) simp_all
  finally show ?thesis .
qed

text \<open>
  Rounding does not cross a double: a value that is at most the double
  \<open>M * 2 ^ (E - 52)\<close> rounds to at most that double, and does not overflow.
\<close>

lemma to_double_le:
  assumes x: "0 \<le> x" and le: "x \<le> of_int M * 2 powi (E - 52)"
    and M: "M < 2 ^ 53" and E: "- 1022 \<le> E" "E \<le> 1023"
  shows "\<exists>y. to_double x = Num y \<and> 0 \<le> y \<and> y \<le> of_int M * 2 powi (E - 52)"
proof (cases "x = 0")
  case True
  then show ?thesis using le by (simp add: to_double_0)
next
  case False
  then have pos: "0 < x" using x by simp
  define c :: rat where "c = of_int M * 2 powi (E - 52)"
  define e where "e = exponent x"
  define quantum :: rat where "quantum = 2 powi (e - 52)"
  have qpos: "0 < quantum" by (simp add: quantum_def)
  have c_less: "c < 2 powi (E + 1)"
  proof -
    have "(of_int M :: rat) < of_int (2 ^ 53)" using M by (simp only: of_int_less_iff)
    then have "(of_int M :: rat) < 2 powi 53" by simp
    then have "c < 2 powi 53 * 2 powi (E - 52)"
      unfolding c_def by (intro mult_strict_right_mono) simp_all
    also have "\<dots> = 2 powi (E + 1)"
    proof -
      have a: "53 + (E - 52) = E + 1" by simp
      have "(2::rat) powi (53 + (E - 52)) = 2 powi 53 * 2 powi (E - 52)"
        by (rule power_int_add) simp
      then show ?thesis by (simp only: a)
    qed
    finally show ?thesis .
  qed
  have eE: "e \<le> E"
  proof (cases "e = - 1022")
    case True
    then show ?thesis using E by simp
  next
    case False
    then have "2 powi e \<le> x" using exponent_le [OF pos] by (simp add: e_def)
    then have "(2::rat) powi e < 2 powi (E + 1)" using le c_less by (simp add: c_def)
    then have "\<not> E + 1 \<le> e"
      using power_int_increasing [of "E + 1" e "2::rat"] by auto
    then show ?thesis by simp
  qed
  define N where "N = M * 2 ^ nat (E - e)"
  have cN: "c = of_int N * quantum"
  proof -
    have "(2::rat) powi (E - 52) = 2 powi (E - e) * 2 powi (e - 52)"
      by (simp add: power_int_add [symmetric])
    also have "(2::rat) powi (E - e) = 2 ^ nat (E - e)"
      using eE by (simp add: power_int_def)
    finally show ?thesis by (simp add: c_def N_def quantum_def)
  qed
  have "x / quantum \<le> of_int N"
    using le qpos cN by (simp add: c_def [symmetric] pos_divide_le_eq)
  then have r: "round_half_even (x / quantum) \<le> N" by (rule round_half_even_le)
  have r0: "0 \<le> round_half_even (x / quantum)"
    using x qpos by (intro round_half_even_nonneg) simp
  define m where "m = round_magnitude x"
  have m: "m = of_int (round_half_even (x / quantum)) * quantum"
    by (simp add: m_def round_magnitude_def quantum_def e_def Let_def)
  have m0: "0 \<le> m" using r0 qpos by (simp add: m)
  have mc: "m \<le> c"
  proof -
    have "(of_int (round_half_even (x / quantum)) :: rat) \<le> of_int N"
      using r by (simp only: of_int_le_iff)
    then show ?thesis using qpos by (simp add: m cN mult_right_mono)
  qed
  have "c < 2 powi 1024"
  proof -
    have "(2::rat) powi (E + 1) \<le> 2 powi 1024"
      using E by (intro power_int_increasing) simp_all
    then show ?thesis using c_less by simp
  qed
  then have "m < 2 ^ 1024" using mc by simp
  then have "to_double x = Num m"
    using x by (simp add: to_double_def m_def [symmetric] Let_def)
  then show ?thesis using m0 mc by (simp add: c_def)
qed

text \<open>
  The percentage of \<open>k\<close> out of \<open>n\<close>, for array lengths: it is a finite number from
  0 to 100, and it is 100 only for \<open>k = n\<close>. The quotient of \<open>k < n\<close> is at most
  \<open>1 - 2 ^ -32\<close>, a double, so it rounds to at most that; its product with 100 is at
  most \<open>100 - 2 ^ -26\<close>, a double again.
\<close>

lemma percentage_bounds:
  assumes kn: "k \<le> n" and n0: "0 < n" and n32: "n < 2 ^ 32"
  shows "\<exists>q. js_mul (js_div (Num (of_nat k)) (Num (of_nat n))) (Num 100) = Num q
           \<and> 0 \<le> q \<and> q \<le> 100 \<and> (q = 100 \<longleftrightarrow> k = n)"
proof (cases "k = n")
  case True
  then have "js_div (Num (of_nat k)) (Num (of_nat n)) = Num 1"
    using n0 by (simp add: to_double_1)
  then have "js_mul (js_div (Num (of_nat k)) (Num (of_nat n))) (Num 100) = Num 100"
    by (simp add: to_double_100)
  then show ?thesis using True by simp
next
  case False
  then have less: "k < n" using kn by simp
  define x :: rat where "x = of_nat k / of_nat n"
  have x0: "0 \<le> x" by (simp add: x_def)
  have "k * 2 ^ 32 + n \<le> n * 2 ^ 32"
  proof -
    have "k * 2 ^ 32 + n \<le> k * 2 ^ 32 + 2 ^ 32" using n32 by simp
    also have "\<dots> = (k + 1) * 2 ^ 32" by simp
    also have "\<dots> \<le> n * 2 ^ 32" using less by (intro mult_right_mono) simp_all
    finally show ?thesis .
  qed
  then have "(of_nat (k * 2 ^ 32 + n) :: rat) \<le> of_nat (n * 2 ^ 32)"
    by (simp only: of_nat_le_iff)
  then have "(of_nat k :: rat) * 2 ^ 32 + of_nat n \<le> of_nat n * 2 ^ 32" by simp
  then have "x \<le> 1 - 1 / 2 ^ 32"
    using n0 by (simp add: x_def field_simps)
  also have "(1::rat) - 1 / 2 ^ 32 = of_int (2 ^ 52 - 2 ^ 20) * 2 powi (0 - 52)"
    by simp
  finally have "x \<le> of_int (2 ^ 52 - 2 ^ 20) * 2 powi (0 - 52)" .
  from to_double_le [OF x0 this]
  obtain y where y: "to_double x = Num y" "0 \<le> y"
    "y \<le> of_int (2 ^ 52 - 2 ^ 20) * 2 powi (0 - 52)"
    by auto
  have "y * 100 \<le> of_int (2 ^ 52 - 2 ^ 20) * 2 powi (0 - 52) * 100"
    using y(3) by (rule mult_right_mono) simp
  also have "\<dots> \<le> of_int (100 * 2 ^ 46 - 2 ^ 20) * 2 powi (6 - 52)"
    by simp
  finally have le: "y * 100 \<le> of_int (100 * 2 ^ 46 - 2 ^ 20) * 2 powi (6 - 52)" .
  have y100: "0 \<le> y * 100" using y(2) by simp
  from to_double_le [OF y100 le]
  obtain q where q: "to_double (y * 100) = Num q" "0 \<le> q"
    "q \<le> of_int (100 * 2 ^ 46 - 2 ^ 20) * 2 powi (6 - 52)"
    by auto
  have "q < 100" using q(3) by simp
  moreover have "js_mul (js_div (Num (of_nat k)) (Num (of_nat n))) (Num 100) = Num q"
    using n0 y(1) q(1) by (simp add: x_def)
  ultimately show ?thesis using q(2) False by auto
qed

text \<open>With a divisor that is not zero the percentage is a finite number.\<close>

lemma percentage_finite:
  assumes n0: "0 < n" and k32: "k < 2 ^ 32"
  shows "\<exists>q. js_mul (js_div (Num (of_nat k)) (Num (of_nat n))) (Num 100) = Num q \<and> 0 \<le> q"
proof -
  define x :: rat where "x = of_nat k / of_nat n"
  have x0: "0 \<le> x" by (simp add: x_def)
  have "(of_nat k :: rat) \<le> of_nat k * of_nat n"
    using n0 by (simp add: mult_le_cancel_left1)
  then have "x \<le> of_nat k" using n0 by (simp add: x_def field_simps)
  also have "(of_nat k :: rat) \<le> of_nat (2 ^ 32)"
  proof -
    have "k \<le> 2 ^ 32" using k32 by simp
    then show ?thesis by (simp only: of_nat_le_iff)
  qed
  also have "(of_nat (2 ^ 32) :: rat) = of_int (2 ^ 52) * 2 powi (32 - 52)" by simp
  finally have "x \<le> of_int (2 ^ 52) * 2 powi (32 - 52)" .
  from to_double_le [OF x0 this]
  obtain y where y: "to_double x = Num y" "0 \<le> y" "y \<le> of_int (2 ^ 52) * 2 powi (32 - 52)"
    by auto
  have "y * 100 \<le> of_int (2 ^ 52) * 2 powi (32 - 52) * 100"
    using y(3) by (rule mult_right_mono) simp
  also have "\<dots> = of_int (100 * 2 ^ 45) * 2 powi (39 - 52)" by simp
  finally have le: "y * 100 \<le> of_int (100 * 2 ^ 45) * 2 powi (39 - 52)" .
  have y100: "0 \<le> y * 100" using y(2) by simp
  from to_double_le [OF y100 le]
  obtain q where q: "to_double (y * 100) = Num q" "0 \<le> q" by auto
  have "js_mul (js_div (Num (of_nat k)) (Num (of_nat n))) (Num 100) = Num q"
    using n0 y(1) q(1) by (simp add: x_def)
  then show ?thesis using q(2) by auto
qed

section \<open>Properties of the progress update\<close>

lemma toggle_ok_Some:
  "truthy token \<Longrightarrow>
   t_userProgress
     (toggleStepCompletion route_id roadmap (Some p) (Returns token) (Returns True)
        stepId completed)
   = Some (local_update roadmap p stepId completed)"
  by (simp add: toggleStepCompletion_def)

lemma completed_steps_local_update:
  "completed_steps (local_update roadmap p stepId completed) = updatedSteps p stepId completed"
  by (simp add: local_update_def)

lemma progress_percentage_local_update:
  "progress_percentage (local_update roadmap p stepId completed)
   = js_mul (js_div (js_length (completed_steps (local_update roadmap p stepId completed)))
       (totalSteps roadmap)) (Num 100)"
  by (simp add: local_update_def newProgress_def)

lemma length_le_of_distinct_subset:
  assumes "distinct xs" "set xs \<subseteq> set ys"
  shows "length xs \<le> length ys"
proof -
  have "length xs = card (set xs)" using assms(1) by (simp add: distinct_card)
  also have "\<dots> \<le> card (set ys)" using assms(2) by (simp add: card_mono)
  also have "\<dots> \<le> length ys" by (rule card_length)
  finally show ?thesis .
qed

lemma covers_iff_length:
  assumes "distinct xs" "distinct ys" "set xs \<subseteq> set ys"
  shows "length xs = length ys \<longleftrightarrow> set ys \<subseteq> set xs"
proof
  assume "length xs = length ys"
  then have "card (set xs) = card (set ys)" using assms by (simp add: distinct_card)
  then have "set xs = set ys" using assms(3) by (simp add: card_subset_eq)
  then show "set ys \<subseteq> set xs" by simp
next
  assume "set ys \<subseteq> set xs"
  then have "set xs = set ys" using assms(3) by auto
  then have "card (set xs) = card (set ys)" by simp
  then show "length xs = length ys" using assms by (simp add: distinct_card)
qed

lemmas example_defs =
  mk_step_def mk_roadmap_def mk_progress_def loaded_screen_def step_ids_def

text \<open>
  The update keeps the shape of the record when it is asked for what the checkbox
  asks for, the opposite of the membership of the step.
\<close>

lemma well_formed_local_update:
  assumes "well_formed r p" and "stepId \<in> set (step_ids r)"
    and "completed = (stepId \<notin> set (completed_steps p))"
  shows "well_formed r (local_update roadmap p stepId completed)"
  using assms
  by (auto simp: well_formed_def local_update_def updatedSteps_def)

lemma local_update_percentage:
  assumes wf: "well_formed r p"
    and ids: "distinct (step_ids r)"
    and size: "length (steps r) < 2 ^ 32"
    and known: "stepId \<in> set (step_ids r)"
    and asked: "completed = (stepId \<notin> set (completed_steps p))"
  shows "\<exists>q. progress_percentage (local_update (Some r) p stepId completed) = Num q
     \<and> 0 \<le> q \<and> q \<le> 100
     \<and> (q = 100 \<longleftrightarrow>
          set (step_ids r) \<subseteq> set (completed_steps (local_update (Some r) p stepId completed)))"
proof -
  let ?p' = "local_update (Some r) p stepId completed"
  define k where "k = length (completed_steps ?p')"
  define n where "n = length (steps r)"
  have wf': "well_formed r ?p'"
    using wf known asked by (rule well_formed_local_update)
  then have d: "distinct (completed_steps ?p')"
    and s: "set (completed_steps ?p') \<subseteq> set (step_ids r)"
    by (simp_all add: well_formed_def)
  have n_ids: "length (step_ids r) = n" by (simp add: step_ids_def n_def)
  have kn: "k \<le> n" using length_le_of_distinct_subset [OF d s] n_ids by (simp add: k_def)
  have n0: "0 < n" using known n_ids by (cases "step_ids r") auto
  have n32: "n < 2 ^ 32" using size by (simp add: n_def)
  from percentage_bounds [OF kn n0 n32]
  obtain q where q: "js_mul (js_div (Num (of_nat k)) (Num (of_nat n))) (Num 100) = Num q"
    "0 \<le> q" "q \<le> 100" "q = 100 \<longleftrightarrow> k = n"
    by auto
  have "progress_percentage ?p' = Num q"
    using q(1)
    by (simp add: progress_percentage_local_update totalSteps_def js_length_def k_def n_def)
  moreover have "k = n \<longleftrightarrow> set (step_ids r) \<subseteq> set (completed_steps ?p')"
    using covers_iff_length [OF d ids s] n_ids by (simp add: k_def)
  ultimately show ?thesis using q(2,3,4) by auto
qed

text \<open>For a step of the roadmap the divisor is not zero and the percentage is finite.\<close>

lemma local_update_finite:
  assumes known: "stepId \<in> set (step_ids r)"
    and size: "length (completed_steps p) < 2 ^ 32 - 1"
  shows "\<exists>q. progress_percentage (local_update (Some r) p stepId completed) = Num q \<and> 0 \<le> q"
proof -
  let ?p' = "local_update (Some r) p stepId completed"
  define k where "k = length (completed_steps ?p')"
  define n where "n = length (steps r)"
  have n0: "0 < n" using known by (auto simp: step_ids_def n_def)
  have "k \<le> length (completed_steps p) + 1"
    by (simp add: k_def completed_steps_local_update updatedSteps_def le_SucI)
  then have k32: "k < 2 ^ 32" using size by simp
  from percentage_finite [OF n0 k32]
  obtain q where q: "js_mul (js_div (Num (of_nat k)) (Num (of_nat n))) (Num 100) = Num q"
    "0 \<le> q"
    by auto
  have "progress_percentage ?p' = Num q"
    using q(1)
    by (simp add: progress_percentage_local_update totalSteps_def js_length_def k_def n_def)
  then show ?thesis using q(2) by auto
qed

text \<open>
  C1. Let the progress record fit the roadmap (each completed step once, only steps
  of the roadmap, the step ids of the roadmap pairwise different, as the data model
  has it; an array has fewer than \<open>2 ^ 32\<close> elements), and let the handler be called
  as the checkbox calls it, for a step of the roadmap with \<open>!completed\<close>. Then after
  a successful toggle the percentage is a finite number between 0 and 100, it is the
  value of \<open>(completed_steps.length / total_steps) * 100\<close> recomputed from the new
  array in the arithmetic of the runtime, it is 100 exactly when every step id of the
  roadmap is in \<open>completed_steps\<close>, and the new record fits the roadmap again. Every
  state the screen reaches is of this shape (\<open>run_keeps_screen_ok\<close>), and a
  successful response in it keeps the invariant
  (\<open>response_keeps_percentage_invariant\<close>).
\<close>

theorem toggle_keeps_percentage_invariant:
  assumes wf: "well_formed r p"
    and ids: "distinct (step_ids r)"
    and size: "length (steps r) < 2 ^ 32"
    and known: "stepId \<in> set (step_ids r)"
    and tok: "truthy token"
  shows "\<exists>p' q.
     t_userProgress (toggleStepCompletion route_id (Some r) (Some p) (Returns token)
        (Returns True) stepId (\<not> isStepCompleted (Some p) stepId)) = Some p'
     \<and> progress_percentage p' = Num q \<and> 0 \<le> q \<and> q \<le> 100
     \<and> progress_percentage p'
         = js_mul (js_div (js_length (completed_steps p')) (js_length (steps r))) (Num 100)
     \<and> (q = 100 \<longleftrightarrow> set (step_ids r) \<subseteq> set (completed_steps p'))
     \<and> well_formed r p'"
proof -
  define completed where "completed = (\<not> isStepCompleted (Some p) stepId)"
  have asked: "completed = (stepId \<notin> set (completed_steps p))"
    by (simp add: completed_def isStepCompleted_def)
  let ?p' = "local_update (Some r) p stepId completed"
  have res: "t_userProgress (toggleStepCompletion route_id (Some r) (Some p) (Returns token)
        (Returns True) stepId (\<not> isStepCompleted (Some p) stepId)) = Some ?p'"
    using tok by (simp add: toggle_ok_Some completed_def)
  from local_update_percentage [OF wf ids size known asked]
  obtain q where q: "progress_percentage ?p' = Num q" "0 \<le> q" "q \<le> 100"
    "q = 100 \<longleftrightarrow> set (step_ids r) \<subseteq> set (completed_steps ?p')"
    by auto
  have expr: "progress_percentage ?p'
      = js_mul (js_div (js_length (completed_steps ?p')) (js_length (steps r))) (Num 100)"
    by (simp add: progress_percentage_local_update totalSteps_def)
  have wf': "well_formed r ?p'"
    using wf known asked by (rule well_formed_local_update)
  show ?thesis using res q expr wf' by blast
qed

theorem toggle_keeps_percentage_invariant_witness:
  "well_formed (mk_roadmap [''a'', ''b'']) (mk_progress [''a''] (Num 50))
   \<and> distinct (step_ids (mk_roadmap [''a'', ''b'']))
   \<and> length (steps (mk_roadmap [''a'', ''b''])) < 2 ^ 32
   \<and> ''b'' \<in> set (step_ids (mk_roadmap [''a'', ''b'']))
   \<and> truthy (Some ''tok'')
   \<and> (\<exists>p' q.
        t_userProgress
          (toggleStepCompletion ''r1'' (Some (mk_roadmap [''a'', ''b'']))
             (Some (mk_progress [''a''] (Num 50))) (Returns (Some ''tok'')) (Returns True)
             ''b'' (\<not> isStepCompleted (Some (mk_progress [''a''] (Num 50))) ''b'')) = Some p'
        \<and> progress_percentage p' = Num q \<and> 0 \<le> q \<and> q \<le> 100
        \<and> progress_percentage p'
            = js_mul (js_div (js_length (completed_steps p'))
                (js_length (steps (mk_roadmap [''a'', ''b''])))) (Num 100)
        \<and> (q = 100 \<longleftrightarrow>
             set (step_ids (mk_roadmap [''a'', ''b''])) \<subseteq> set (completed_steps p'))
        \<and> well_formed (mk_roadmap [''a'', ''b'']) p')"
proof -
  have h1: "well_formed (mk_roadmap [''a'', ''b'']) (mk_progress [''a''] (Num 50))"
    by (simp add: well_formed_def example_defs)
  have h2: "distinct (step_ids (mk_roadmap [''a'', ''b'']))" by (simp add: example_defs)
  have h3: "length (steps (mk_roadmap [''a'', ''b''])) < 2 ^ 32" by (simp add: example_defs)
  have h4: "''b'' \<in> set (step_ids (mk_roadmap [''a'', ''b'']))" by (simp add: example_defs)
  have h5: "truthy (Some ''tok'')" by simp
  from toggle_keeps_percentage_invariant [OF h1 h2 h3 h4 h5, of "''r1''"]
  show ?thesis using h1 h2 h3 h4 h5 by blast
qed

text \<open>
  The value the example above stores: both steps completed, 100.
\<close>

lemma toggle_example_value:
  "t_userProgress
     (toggleStepCompletion ''r1'' (Some (mk_roadmap [''a'', ''b'']))
        (Some (mk_progress [''a''] (Num 50))) (Returns (Some ''tok'')) (Returns True)
        ''b'' (\<not> isStepCompleted (Some (mk_progress [''a''] (Num 50))) ''b''))
   = Some (mk_progress [''a'', ''b''] (Num 100))"
  by (simp add: toggleStepCompletion_def local_update_def updatedSteps_def newProgress_def
      totalSteps_def js_length_def isStepCompleted_def example_defs to_double_1 to_double_100)

text \<open>
  C5. When the request fails, by a response that is not ok or by a rejected fetch,
  the progress state is the one from before (the same record, or still none), exactly
  one error alert is shown, and exactly one request has been sent: there is no retry.
\<close>

theorem failed_toggle_changes_nothing:
  assumes "truthy token" and "response = Throws \<or> response = Returns False"
  shows "toggleStepCompletion route_id roadmap userProgress (Returns token) response
           stepId completed
         = \<lparr>t_userProgress = userProgress, t_updatingStep = None,
            t_alerts = [(''Error'', if response = Throws then ''Network error occurred''
                                    else ''Failed to update progress'')],
            t_requests = [\<lparr>post_career_id = route_id, post_step_id = stepId,
                           post_completed = completed\<rparr>]\<rparr>"
  using assms by (auto simp: toggleStepCompletion_def)

theorem failed_toggle_changes_nothing_witness:
  "truthy (Some ''tok'')
   \<and> toggleStepCompletion ''r1'' (Some (mk_roadmap [''a'', ''b'']))
       (Some (mk_progress [''a''] (Num 50))) (Returns (Some ''tok'')) (Returns False)
       ''b'' True
     = \<lparr>t_userProgress = Some (mk_progress [''a''] (Num 50)), t_updatingStep = None,
        t_alerts = [(''Error'', ''Failed to update progress'')],
        t_requests = [\<lparr>post_career_id = ''r1'', post_step_id = ''b'',
                       post_completed = True\<rparr>]\<rparr>"
proof -
  have h1: "truthy (Some ''tok'')" by simp
  have h2: "(Returns False :: bool outcome) = Throws \<or> Returns False = Returns False"
    by simp
  from failed_toggle_changes_nothing [OF h1 h2] show ?thesis using h1 by simp
qed

text \<open>
  C10. When no progress record is loaded (the local state is null), a successful
  toggle leaves the local progress state null, whatever the roadmap, the step and the
  target state are, and every step is reported as not completed.
\<close>

theorem toggle_without_progress_record:
  "t_userProgress
     (toggleStepCompletion route_id roadmap None (Returns (Some (c # cs))) (Returns True)
        stepId completed) = None
   \<and> isStepCompleted None stepId = False"
  by (simp add: toggleStepCompletion_def isStepCompleted_def)

section \<open>Properties of the screen as a state machine\<close>

text \<open>
  One tap and its response, with nothing else in flight, is one run of
  \<open>toggleStepCompletion(step.id, !completed)\<close>.
\<close>

lemma press_then_response:
  assumes "s_roadmap s = Some r" and "stepId \<in> set (step_ids r)"
    and "\<not> isUpdating s stepId" and "s_inflight s = []"
    and "s_token s = Returns token" and "truthy token"
  shows "s_userProgress (run s [Press stepId, Response 0 response])
         = t_userProgress
             (toggleStepCompletion route_id (s_roadmap s) (s_userProgress s) (s_token s)
                response stepId (\<not> isStepCompleted (s_userProgress s) stepId))"
    and "s_updatingStep (run s [Press stepId, Response 0 response]) = None"
    and "s_inflight (run s [Press stepId, Response 0 response]) = []"
    and "s_alerts (run s [Press stepId, Response 0 response])
         = s_alerts s @ t_alerts
             (toggleStepCompletion route_id (s_roadmap s) (s_userProgress s) (s_token s)
                response stepId (\<not> isStepCompleted (s_userProgress s) stepId))"
  using assms
  by (auto simp: press_def start_toggle_def respond_def toggleStepCompletion_def Let_def
      split: outcome.splits option.splits)

text \<open>
  Whatever is tapped and answered, in whatever order, the progress state of the screen
  fits the roadmap: the checkbox asks for \<open>true\<close> only from a render in which the
  step is not completed, and the update is applied to the state of that render.
\<close>

lemma press_keeps_screen_ok:
  assumes "screen_ok s"
  shows "screen_ok (press s stepId)"
proof (cases "s_roadmap s")
  case None
  then show ?thesis using assms by (simp add: press_def)
next
  case (Some r)
  show ?thesis
  proof (cases "stepId \<in> set (step_ids r) \<and> \<not> isUpdating s stepId")
    case False
    then show ?thesis using assms Some by (auto simp: press_def)
  next
    case True
    then have "press s stepId
        = start_toggle s stepId (\<not> isStepCompleted (s_userProgress s) stepId)"
      using Some by (simp add: press_def)
    moreover have "screen_ok (start_toggle s stepId (\<not> isStepCompleted (s_userProgress s) stepId))"
      using assms Some True
      by (auto simp: screen_ok_def start_toggle_def as_issued_def isStepCompleted_def
          split: outcome.splits option.splits)
    ultimately show ?thesis by simp
  qed
qed

lemma respond_keeps_screen_ok:
  assumes "screen_ok s"
  shows "screen_ok (respond s i response)"
proof (cases "s_roadmap s")
  case None
  then show ?thesis
    by (auto simp: screen_ok_def respond_def Let_def split: outcome.splits)
next
  case (Some r)
  show ?thesis
  proof (cases "i < length (s_inflight s)")
    case False
    then show ?thesis using assms by (simp add: respond_def)
  next
    case True
    let ?pt = "s_inflight s ! i"
    let ?rest = "take i (s_inflight s) @ drop (Suc i) (s_inflight s)"
    have all: "list_all (as_issued r) (s_inflight s)"
      using assms Some by (simp add: screen_ok_def)
    have pt: "as_issued r ?pt"
      using all True by (simp add: list_all_length)
    have "set ?rest \<subseteq> set (s_inflight s)"
      using set_take_subset set_drop_subset by fastforce
    then have rest: "list_all (as_issued r) ?rest"
      using all by (auto simp: list_all_iff)
    have cur: "case s_userProgress s of None \<Rightarrow> True | Some p \<Rightarrow> well_formed r p"
      using assms Some by (simp add: screen_ok_def)
    have new: "case (case pt_userProgress ?pt of
                 None \<Rightarrow> s_userProgress s
               | Some p \<Rightarrow> Some (local_update (s_roadmap s) p (pt_stepId ?pt) (pt_completed ?pt)))
               of None \<Rightarrow> True | Some p \<Rightarrow> well_formed r p"
    proof (cases "pt_userProgress ?pt")
      case None
      then show ?thesis using cur by simp
    next
      case (Some p)
      then have "well_formed r (local_update (s_roadmap s) p (pt_stepId ?pt) (pt_completed ?pt))"
        using pt by (intro well_formed_local_update) (simp_all add: as_issued_def)
      then show ?thesis using Some by simp
    qed
    show ?thesis
    proof (cases response)
      case Throws
      then show ?thesis
        using True Some rest cur by (simp add: respond_def screen_ok_def Let_def)
    next
      case (Returns ok)
      then show ?thesis
        using True Some rest cur new by (simp add: respond_def screen_ok_def Let_def)
    qed
  qed
qed

lemma run_keeps_screen_ok: "screen_ok s \<Longrightarrow> screen_ok (run s es)"
proof (induction es arbitrary: s)
  case Nil
  then show ?case by simp
next
  case (Cons e es)
  have "screen_ok (handle s e)"
    using Cons.prems by (cases e) (simp_all add: press_keeps_screen_ok respond_keeps_screen_ok)
  then show ?case using Cons.IH by simp
qed

lemma press_disabled: "isUpdating s stepId \<Longrightarrow> press s stepId = s"
  by (simp add: press_def split: option.splits)

lemma s_roadmap_handle: "s_roadmap (handle s e) = s_roadmap s"
  by (cases e)
    (auto simp: press_def start_toggle_def respond_def Let_def
      split: option.splits outcome.splits)

lemma s_roadmap_run: "s_roadmap (run s es) = s_roadmap s"
  by (induction es arbitrary: s) (simp_all add: s_roadmap_handle)

text \<open>
  In every state the screen reaches, a successful response leaves a percentage between
  0 and 100 that is 100 exactly when all steps are completed.
\<close>

lemma response_keeps_percentage_invariant:
  assumes ok: "screen_ok s" and r: "s_roadmap s = Some r"
    and ids: "distinct (step_ids r)" and size: "length (steps r) < 2 ^ 32"
    and i: "i < length (s_inflight s)"
    and cap: "pt_userProgress (s_inflight s ! i) = Some p"
  shows "\<exists>p' q. s_userProgress (respond s i (Returns True)) = Some p'
     \<and> progress_percentage p' = Num q \<and> 0 \<le> q \<and> q \<le> 100
     \<and> (q = 100 \<longleftrightarrow> set (step_ids r) \<subseteq> set (completed_steps p'))"
proof -
  let ?pt = "s_inflight s ! i"
  have "list_all (as_issued r) (s_inflight s)"
    using ok r by (simp add: screen_ok_def)
  then have "as_issued r ?pt" using i by (simp add: list_all_length)
  then have known: "pt_stepId ?pt \<in> set (step_ids r)" and wf: "well_formed r p"
    and asked: "pt_completed ?pt = (pt_stepId ?pt \<notin> set (completed_steps p))"
    using cap by (simp_all add: as_issued_def)
  have "s_userProgress (respond s i (Returns True))
      = Some (local_update (Some r) p (pt_stepId ?pt) (pt_completed ?pt))"
    using i cap r by (simp add: respond_def Let_def)
  then show ?thesis
    using local_update_percentage [OF wf ids size known asked] by auto
qed

text \<open>
  The expression itself tests nothing: evaluated with a divisor of zero it gives
  \<open>NaN\<close> for an empty array and \<open>Infinity\<close> otherwise. What keeps the divisor from
  being zero is that a toggle is started from a checkbox of a step.
\<close>

lemma newProgress_without_steps:
  "totalSteps roadmap = Num 0 \<Longrightarrow>
   newProgress roadmap xs = (if xs = [] then NaN else PosInfinity)"
  by (simp add: newProgress_def js_length_def)



text \<open>
  From a screen with nothing in flight, whatever is tapped and answered, every toggle
  in flight is for a step of the loaded roadmap, so a successful response never
  divides by zero: it stores a finite number.
\<close>

lemma handle_keeps_inflight_known:
  assumes "inflight_known s"
  shows "inflight_known (handle s e)"
proof (cases e)
  case (Press stepId)
  then show ?thesis
    using assms
    by (auto simp: inflight_known_def press_def start_toggle_def
        split: option.splits outcome.splits)
next
  case (Response i response)
  have "set (take i (s_inflight s) @ drop (Suc i) (s_inflight s)) \<subseteq> set (s_inflight s)"
    using set_take_subset set_drop_subset by fastforce
  then have "list_all
       (\<lambda>pt. case s_roadmap s of
               None \<Rightarrow> False
             | Some r \<Rightarrow> pt_stepId pt \<in> set (step_ids r))
       (take i (s_inflight s) @ drop (Suc i) (s_inflight s))"
    using assms unfolding inflight_known_def list_all_iff by blast
  then show ?thesis
    using Response assms
    by (auto simp: inflight_known_def respond_def Let_def split: outcome.splits)
qed

lemma run_keeps_inflight_known: "inflight_known s \<Longrightarrow> inflight_known (run s es)"
  by (induction es arbitrary: s) (simp_all add: handle_keeps_inflight_known)

lemma run_never_divides_by_zero:
  assumes start: "s_inflight s0 = []"
    and i: "i < length (s_inflight (run s0 es))"
    and cap: "pt_userProgress (s_inflight (run s0 es) ! i) = Some p"
    and size: "length (completed_steps p) < 2 ^ 32 - 1"
  shows "totalSteps (s_roadmap (run s0 es)) \<noteq> Num 0
     \<and> (\<exists>p' q. s_userProgress (respond (run s0 es) i (Returns True)) = Some p'
           \<and> progress_percentage p' = Num q \<and> 0 \<le> q)"
proof -
  let ?s = "run s0 es"
  let ?pt = "s_inflight ?s ! i"
  have "inflight_known s0" using start by (simp add: inflight_known_def)
  then have "inflight_known ?s" by (rule run_keeps_inflight_known)
  then obtain r where r: "s_roadmap ?s = Some r" and known: "pt_stepId ?pt \<in> set (step_ids r)"
    using i by (auto simp: inflight_known_def list_all_length split: option.splits)
  have "steps r \<noteq> []" using known by (auto simp: step_ids_def)
  then have nz: "totalSteps (s_roadmap ?s) \<noteq> Num 0"
    using r by (simp add: totalSteps_def js_length_def)
  have "s_userProgress (respond ?s i (Returns True))
      = Some (local_update (Some r) p (pt_stepId ?pt) (pt_completed ?pt))"
    using i cap r by (simp add: respond_def Let_def)
  then show ?thesis
    using nz local_update_finite [OF known size] by auto
qed

text \<open>
  In every state the screen reaches, a successful toggle with \<open>true\<close> leaves its
  step in \<open>completed_steps\<close> exactly once.
\<close>

lemma response_counts_once:
  assumes ok: "screen_ok s" and r: "s_roadmap s = Some r"
    and i: "i < length (s_inflight s)"
    and cap: "pt_userProgress (s_inflight s ! i) = Some p"
    and target: "pt_completed (s_inflight s ! i)"
  shows "\<exists>p'. s_userProgress (respond s i (Returns True)) = Some p'
     \<and> count_list (completed_steps p') (pt_stepId (s_inflight s ! i)) = 1"
proof -
  let ?pt = "s_inflight s ! i"
  have "list_all (as_issued r) (s_inflight s)"
    using ok r by (simp add: screen_ok_def)
  then have "as_issued r ?pt" using i by (simp add: list_all_length)
  then have "pt_stepId ?pt \<notin> set (completed_steps p)"
    using cap target by (simp add: as_issued_def)
  then have "count_list (completed_steps p) (pt_stepId ?pt) = 0"
    by (simp add: count_list_0_iff)
  then show ?thesis
    using i cap target
    by (simp add: respond_def Let_def local_update_def updatedSteps_def)
qed





text \<open>
  C4. From a state in which the step is not completed, a tap sends \<open>true\<close>; once it
  has succeeded the step is completed and the next tap sends \<open>false\<close>; once that
  has succeeded too, \<open>completed_steps\<close> is what it was before the first toggle.
\<close>

theorem toggle_round_trip:
  assumes r: "s_roadmap s = Some r" and a: "stepId \<in> set (step_ids r)"
    and tok: "s_token s = Returns token" "truthy token"
    and enabled: "\<not> isUpdating s stepId"
    and p: "s_userProgress s = Some p"
    and fresh: "\<not> isStepCompleted (s_userProgress s) stepId"
    and n: "n = length (s_inflight s)"
  shows "map (\<lambda>pt. (pt_stepId pt, pt_completed pt))
       (drop n (s_inflight (run s [Press stepId])))
     = [(stepId, True)]
   \<and> map (\<lambda>pt. (pt_stepId pt, pt_completed pt))
       (drop n (s_inflight (run s [Press stepId, Response n (Returns True), Press stepId])))
     = [(stepId, False)]
   \<and> map_option completed_steps
       (s_userProgress
          (run s [Press stepId, Response n (Returns True),
                  Press stepId, Response n (Returns True)]))
     = Some (completed_steps p)"
proof -
  have notin: "stepId \<notin> set (completed_steps p)"
    using p fresh by (simp add: isStepCompleted_def)
  then have restored: "filter (\<lambda>s. s \<noteq> stepId) (completed_steps p @ [stepId]) = completed_steps p"
    by (auto simp: filter_id_conv)
  show ?thesis
    using assms notin restored
    by (simp add: press_def start_toggle_def respond_def isUpdating_def isStepCompleted_def
        local_update_def updatedSteps_def Let_def nth_append)
qed

theorem toggle_round_trip_witness:
  "s_roadmap (loaded_screen [''a'', ''b''] [''a''] (Num 50)) = Some (mk_roadmap [''a'', ''b''])
   \<and> ''b'' \<in> set (step_ids (mk_roadmap [''a'', ''b'']))
   \<and> s_token (loaded_screen [''a'', ''b''] [''a''] (Num 50)) = Returns (Some ''tok'')
   \<and> truthy (Some ''tok'')
   \<and> \<not> isUpdating (loaded_screen [''a'', ''b''] [''a''] (Num 50)) ''b''
   \<and> s_userProgress (loaded_screen [''a'', ''b''] [''a''] (Num 50))
       = Some (mk_progress [''a''] (Num 50))
   \<and> \<not> isStepCompleted (s_userProgress (loaded_screen [''a'', ''b''] [''a''] (Num 50))) ''b''
   \<and> 0 = length (s_inflight (loaded_screen [''a'', ''b''] [''a''] (Num 50)))
   \<and> map_option completed_steps
       (s_userProgress
          (run (loaded_screen [''a'', ''b''] [''a''] (Num 50))
             [Press ''b'', Response 0 (Returns True)]))
     = Some [''a'', ''b'']
   \<and> map_option completed_steps
       (s_userProgress
          (run (loaded_screen [''a'', ''b''] [''a''] (Num 50))
             [Press ''b'', Response 0 (Returns True), Press ''b'', Response 0 (Returns True)]))
     = Some [''a'']"
proof -
  have h1: "s_roadmap (loaded_screen [''a'', ''b''] [''a''] (Num 50))
      = Some (mk_roadmap [''a'', ''b''])"
    by (simp add: loaded_screen_def)
  have h2: "''b'' \<in> set (step_ids (mk_roadmap [''a'', ''b'']))" by (simp add: example_defs)
  have h3: "s_token (loaded_screen [''a'', ''b''] [''a''] (Num 50)) = Returns (Some ''tok'')"
    by (simp add: loaded_screen_def)
  have h4: "truthy (Some ''tok'')" by simp
  have h5: "\<not> isUpdating (loaded_screen [''a'', ''b''] [''a''] (Num 50)) ''b''"
    by (simp add: isUpdating_def loaded_screen_def)
  have h6: "s_userProgress (loaded_screen [''a'', ''b''] [''a''] (Num 50))
      = Some (mk_progress [''a''] (Num 50))"
    by (simp add: loaded_screen_def)
  have h7: "\<not> isStepCompleted (s_userProgress (loaded_screen [''a'', ''b''] [''a''] (Num 50))) ''b''"
    by (simp add: isStepCompleted_def example_defs)
  have h8: "0 = length (s_inflight (loaded_screen [''a'', ''b''] [''a''] (Num 50)))"
    by (simp add: loaded_screen_def)
  have between: "map_option completed_steps
       (s_userProgress
          (run (loaded_screen [''a'', ''b''] [''a''] (Num 50))
             [Press ''b'', Response 0 (Returns True)]))
     = Some [''a'', ''b'']"
    by (simp add: press_def start_toggle_def respond_def isUpdating_def isStepCompleted_def
        local_update_def updatedSteps_def example_defs)
  have cs: "completed_steps (mk_progress [''a''] (Num 50)) = [''a'']"
    by (simp add: mk_progress_def)
  from toggle_round_trip [OF h1 h2 h3 h4 h5 h6 h7 h8]
  show ?thesis using h1 h2 h3 h4 h5 h6 h7 h8 between cs by simp
qed

text \<open>
  C6. The guard is the single value \<open>updatingStep\<close>. A second tap on a step right
  after the first is suppressed. Once another step is tapped, \<open>updatingStep\<close> names
  that other step, the checkbox of the first step is enabled again while its request
  is still in flight, and a further tap on it sends a second request for the same step;
  the same happens once the request of the other step is answered, which clears
  \<open>updatingStep\<close>.
\<close>

theorem second_toggle_of_a_step_in_flight:
  "inflight_steps
     (run (loaded_screen [''a'', ''b''] [] (Num 0)) [Press ''a'', Press ''a''])
   = [''a'']
   \<and> inflight_steps
     (run (loaded_screen [''a'', ''b''] [] (Num 0)) [Press ''a'', Press ''b'', Press ''a''])
   = [''a'', ''b'', ''a'']
   \<and> inflight_steps
     (run (loaded_screen [''a'', ''b''] [] (Num 0))
        [Press ''a'', Press ''b'', Response 1 (Returns True), Press ''a''])
   = [''a'', ''a'']"
  by (simp add: inflight_steps_def press_def start_toggle_def respond_def isUpdating_def
      isStepCompleted_def local_update_def updatedSteps_def example_defs)

section \<open>Properties of the session bootstrap\<close>

text \<open>
  C7, as amended. On app start the route is decided by the stored credentials: with no
  token the user stays on the landing page, the unauthenticated entry; with a token
  and a cached user without \<open>selected_stream\<close> the user ends on the stream selection;
  with a token and a cached user with a stream the user ends on the dashboard. A
  failure of the read of the token is swallowed and treated as no token. A failure of
  the read of the cached user on the dashboard is not: it is reported by an alert and
  the user stays on the dashboard.
\<close>

theorem bootstrap_routing:
  "(getItem st ''auth_token'' = Returns token \<and> \<not> truthy token \<longrightarrow>
      bootstrap (Suc n) rt st = Some (Index, []))
   \<and> (getItem st ''auth_token'' = Throws \<longrightarrow>
      bootstrap (Suc n) rt st = Some (Index, []))
   \<and> (getItem st ''auth_token'' = Returns token \<and> truthy token
      \<and> getItem st ''user_data'' = Returns (Some stored) \<and> stored \<noteq> []
      \<and> JSON_parse rt stored = Returns u \<longrightarrow>
      bootstrap (Suc (Suc (Suc n))) rt st
        = Some (if truthy (selected_stream u) then Dashboard else StreamSelection, []))
   \<and> (getItem st ''auth_token'' = Returns token \<and> truthy token
      \<and> getItem st ''user_data'' = Throws \<longrightarrow>
      bootstrap (Suc (Suc (Suc n))) rt st = Some (Dashboard, [(''Error'', ''Failed to load data'')]))"
proof (intro conjI impI)
  assume "getItem st ''auth_token'' = Returns token \<and> \<not> truthy token"
  then have "on_mount rt st Index = (None, [])"
    by (simp add: checkAuthStatus_def)
  then show "bootstrap (Suc n) rt st = Some (Index, [])"
    by (simp add: bootstrap_def)
next
  assume "getItem st ''auth_token'' = Throws"
  then have "on_mount rt st Index = (None, [])"
    by (simp add: checkAuthStatus_def)
  then show "bootstrap (Suc n) rt st = Some (Index, [])"
    by (simp add: bootstrap_def)
next
  assume a: "getItem st ''auth_token'' = Returns token \<and> truthy token
      \<and> getItem st ''user_data'' = Returns (Some stored) \<and> stored \<noteq> []
      \<and> JSON_parse rt stored = Returns u"
  then have landing: "on_mount rt st Index = (Some Dashboard, [])"
    by (simp add: checkAuthStatus_def)
  have dashboard: "on_mount rt st Dashboard
      = (if truthy (selected_stream u) then None else Some StreamSelection, [])"
    using a by (simp add: initializeData_def)
  show "bootstrap (Suc (Suc (Suc n))) rt st
      = Some (if truthy (selected_stream u) then Dashboard else StreamSelection, [])"
    using landing dashboard by (simp add: bootstrap_def)
next
  assume a: "getItem st ''auth_token'' = Returns token \<and> truthy token
      \<and> getItem st ''user_data'' = Throws"
  then have landing: "on_mount rt st Index = (Some Dashboard, [])"
    by (simp add: checkAuthStatus_def)
  have dashboard: "on_mount rt st Dashboard = (None, [(''Error'', ''Failed to load data'')])"
    using a by (simp add: initializeData_def)
  show "bootstrap (Suc (Suc (Suc n))) rt st
      = Some (Dashboard, [(''Error'', ''Failed to load data'')])"
    using landing dashboard by (simp add: bootstrap_def)
qed

theorem bootstrap_routing_witness:
  "bootstrap 3 example_runtime (store_of (Returns None) (Returns None)) = Some (Index, [])
   \<and> bootstrap 3 example_runtime (store_of Throws Throws) = Some (Index, [])
   \<and> bootstrap 3 example_runtime (store_of (Returns (Some ''tok'')) (Returns (Some ''asha'')))
     = Some (StreamSelection, [])
   \<and> bootstrap 3 example_runtime
       (store_of (Returns (Some ''tok'')) (Returns (Some ''asha+Science'')))
     = Some (Dashboard, [])
   \<and> bootstrap 3 example_runtime (store_of (Returns (Some ''tok'')) Throws)
     = Some (Dashboard, [(''Error'', ''Failed to load data'')])"
proof -
  have three: "(3::nat) = Suc (Suc (Suc 0))" by simp
  have a: "getItem (store_of (Returns None) (Returns None)) ''auth_token'' = Returns None
      \<and> \<not> truthy None"
    by (simp add: getItem_def store_of_def)
  have b: "getItem (store_of Throws Throws) ''auth_token'' = Throws"
    by (simp add: getItem_def store_of_def)
  have c: "getItem (store_of (Returns (Some ''tok'')) (Returns (Some ''asha''))) ''auth_token''
        = Returns (Some ''tok'') \<and> truthy (Some ''tok'')
      \<and> getItem (store_of (Returns (Some ''tok'')) (Returns (Some ''asha''))) ''user_data''
        = Returns (Some ''asha'') \<and> ''asha'' \<noteq> []
      \<and> JSON_parse example_runtime ''asha'' = Returns (mk_user None)"
    by (simp add: getItem_def store_of_def example_runtime_def)
  have d: "getItem (store_of (Returns (Some ''tok'')) (Returns (Some ''asha+Science'')))
          ''auth_token''
        = Returns (Some ''tok'') \<and> truthy (Some ''tok'')
      \<and> getItem (store_of (Returns (Some ''tok'')) (Returns (Some ''asha+Science'')))
          ''user_data''
        = Returns (Some ''asha+Science'') \<and> ''asha+Science'' \<noteq> []
      \<and> JSON_parse example_runtime ''asha+Science'' = Returns (mk_user (Some ''Science''))"
    by (simp add: getItem_def store_of_def example_runtime_def)
  have e: "getItem (store_of (Returns (Some ''tok'')) Throws) ''auth_token''
        = Returns (Some ''tok'') \<and> truthy (Some ''tok'')
      \<and> getItem (store_of (Returns (Some ''tok'')) Throws) ''user_data'' = Throws"
    by (simp add: getItem_def store_of_def)
  have sel: "\<not> truthy (selected_stream (mk_user None))"
    "truthy (selected_stream (mk_user (Some ''Science'')))"
    by (simp_all add: mk_user_def)
  show ?thesis
    using a b c d e sel
      bootstrap_routing [of "store_of (Returns None) (Returns None)" None 2 example_runtime]
      bootstrap_routing [of "store_of Throws Throws" None 2 example_runtime]
      bootstrap_routing [of "store_of (Returns (Some ''tok'')) (Returns (Some ''asha''))"
        "Some ''tok''" 0 example_runtime "''asha''" "mk_user None"]
      bootstrap_routing [of "store_of (Returns (Some ''tok'')) (Returns (Some ''asha+Science''))"
        "Some ''tok''" 0 example_runtime "''asha+Science''" "mk_user (Some ''Science'')"]
      bootstrap_routing [of "store_of (Returns (Some ''tok'')) Throws"
        "Some ''tok''" 0 example_runtime]
    by (simp add: three)
qed

theorem bootstrap_store_failure_counterexample:
  "bootstrap 3 example_runtime (store_of (Returns (Some ''tok'')) Throws)
     = Some (Dashboard, [(''Error'', ''Failed to load data'')])
   \<and> bootstrap 3 example_runtime (store_of (Returns None) Throws) = Some (Index, [])
   \<and> Dashboard \<noteq> Index"
  by (simp add: bootstrap_def checkAuthStatus_def initializeData_def getItem_def
      store_of_def numeral_3_eq_3)

section \<open>Properties of login and registration\<close>

text \<open>
  C8. When a login request was sent (the form had passed the local checks) and the
  server rejects it, nothing is written to the store, neither the token nor the user,
  and the user stays on the login screen; when the body of the rejection carries a
  message, the alert shows that message.
\<close>

theorem rejected_login_persists_nothing:
  assumes "email \<noteq> []" and "password \<noteq> []" and "CHR ''@'' \<in> set email"
    and "\<not> resp_ok response"
  shows "l_storage (handleLogin rt st email password (Returns response)) = st
     \<and> l_navigate (handleLogin rt st email password (Returns response)) = None
     \<and> l_requests (handleLogin rt st email password (Returns response))
         = [(toLowerCase rt email, password)]
     \<and> length (l_alerts (handleLogin rt st email password (Returns response))) = 1
     \<and> (\<forall>data d. resp_json response = Returns data \<and> body_detail data = Some d \<and> d \<noteq> []
          \<longrightarrow> l_alerts (handleLogin rt st email password (Returns response))
                = [(''Login Failed'', d)])"
  using assms
  by (auto simp: handleLogin_def Let_def detail_or_def split: outcome.splits)

theorem rejected_login_persists_nothing_witness:
  "''nobody@example.com'' \<noteq> [] \<and> ''secret'' \<noteq> []
   \<and> CHR ''@'' \<in> set ''nobody@example.com''
   \<and> \<not> resp_ok (rejection (Some ''Invalid email or password''))
   \<and> l_storage (handleLogin example_runtime (store_of (Returns None) (Returns None))
        ''nobody@example.com'' ''secret''
        (Returns (rejection (Some ''Invalid email or password''))))
     = store_of (Returns None) (Returns None)
   \<and> l_navigate (handleLogin example_runtime (store_of (Returns None) (Returns None))
        ''nobody@example.com'' ''secret''
        (Returns (rejection (Some ''Invalid email or password'')))) = None
   \<and> l_alerts (handleLogin example_runtime (store_of (Returns None) (Returns None))
        ''nobody@example.com'' ''secret''
        (Returns (rejection (Some ''Invalid email or password''))))
     = [(''Login Failed'', ''Invalid email or password'')]"
proof -
  have h1: "''nobody@example.com'' \<noteq> []" by simp
  have h2: "''secret'' \<noteq> []" by simp
  have h3: "CHR ''@'' \<in> set ''nobody@example.com''" by simp
  have h4: "\<not> resp_ok (rejection (Some ''Invalid email or password''))"
    by (simp add: rejection_def)
  have body: "resp_json (rejection (Some ''Invalid email or password''))
      = Returns \<lparr>body_detail = Some ''Invalid email or password'', body_access_token = [],
                 body_user = mk_user None\<rparr>"
    by (simp add: rejection_def)
  from rejected_login_persists_nothing [OF h1 h2 h3 h4, of example_runtime
      "store_of (Returns None) (Returns None)"]
  show ?thesis using h1 h2 h3 h4 body by simp
qed

text \<open>
  C9. \<open>validateForm\<close> accepts exactly the inputs with all four fields non-empty, a
  name of at least 2 characters, an email containing \<open>@\<close>, a password of at least 6
  characters and a confirmation equal to the password. \<open>handleRegister\<close> runs it
  first: when it fails, in particular when password and confirmation differ, no
  request is sent, nothing is stored and an alert is shown; when it passes, one
  request is sent.
\<close>

theorem register_validates_before_request:
  "(fst (validateForm name email password confirmPassword) \<longleftrightarrow>
      name \<noteq> [] \<and> email \<noteq> [] \<and> password \<noteq> [] \<and> confirmPassword \<noteq> []
      \<and> 2 \<le> length name \<and> CHR ''@'' \<in> set email \<and> 6 \<le> length password
      \<and> password = confirmPassword)
   \<and> (\<not> fst (validateForm name email password confirmPassword) \<longrightarrow>
        r_requests (handleRegister rt st name email password confirmPassword reply) = []
        \<and> r_storage (handleRegister rt st name email password confirmPassword reply) = st
        \<and> r_navigate (handleRegister rt st name email password confirmPassword reply) = None
        \<and> length (r_alerts (handleRegister rt st name email password confirmPassword reply))
            = 1)
   \<and> (password \<noteq> confirmPassword \<longrightarrow>
        r_requests (handleRegister rt st name email password confirmPassword reply) = [])
   \<and> (fst (validateForm name email password confirmPassword) \<longrightarrow>
        r_requests (handleRegister rt st name email password confirmPassword reply)
          = [(trim rt name, trim rt (toLowerCase rt email), password)])"
  by (auto simp: validateForm_def handleRegister_def Let_def
      split: outcome.splits if_splits)

theorem register_validates_before_request_witness:
  "''secret1'' \<noteq> ''secret2''
   \<and> \<not> fst (validateForm ''Asha'' ''asha@example.com'' ''secret1'' ''secret2'')
   \<and> r_requests (handleRegister example_runtime (store_of (Returns None) (Returns None))
        ''Asha'' ''asha@example.com'' ''secret1'' ''secret2'' Throws) = []
   \<and> r_storage (handleRegister example_runtime (store_of (Returns None) (Returns None))
        ''Asha'' ''asha@example.com'' ''secret1'' ''secret2'' Throws)
     = store_of (Returns None) (Returns None)
   \<and> fst (validateForm ''Asha'' ''asha@example.com'' ''secret1'' ''secret1'')
   \<and> r_requests (handleRegister example_runtime (store_of (Returns None) (Returns None))
        ''Asha'' ''asha@example.com'' ''secret1'' ''secret1'' Throws)
     = [(''Asha'', ''asha@example.com'', ''secret1'')]"
proof -
  have h1: "''secret1'' \<noteq> ''secret2''" by simp
  have h2: "fst (validateForm ''Asha'' ''asha@example.com'' ''secret1'' ''secret1'')"
    by (simp add: validateForm_def)
  have rt: "trim example_runtime = (\<lambda>s. s)" "toLowerCase example_runtime = (\<lambda>s. s)"
    by (simp_all add: example_runtime_def)
  show ?thesis
    using h1 h2 rt
      register_validates_before_request [of "''Asha''" "''asha@example.com''" "''secret1''"
        "''secret2''" example_runtime "store_of (Returns None) (Returns None)" Throws]
      register_validates_before_request [of "''Asha''" "''asha@example.com''" "''secret1''"
        "''secret1''" example_runtime "store_of (Returns None) (Returns None)" Throws]
    by simp
qed


end
